theory Spec2Isabelle
  imports Complex_Main "HOL-Library.Word" "HOL-Library.AList"
begin

section \<open>ImageMatch: the signature database (signature\_database.py)\<close>

text \<open>
  A shallow embedding of \<^verbatim>\<open>SignatureCollection\<close>: the word extraction
  (\<^verbatim>\<open>get_words\<close>), the quantisation (\<^verbatim>\<open>max_contrast\<close>), the record
  builder (\<^verbatim>\<open>make_record\<close>), the constructor's validation, the candidate query
  (\<^verbatim>\<open>find_word_matches\<close>) and the ranking (\<^verbatim>\<open>normalized_distance\<close>,
  \<^verbatim>\<open>find_matches\<close>).

  Conventions of the model.
  \<^item> A signature is an \<^verbatim>\<open>int8\<close> array: \<^verbatim>\<open>get_words\<close> copies it into a
    buffer made by \<^verbatim>\<open>np.zeros((N, k)).astype('int8')\<close> and \<^verbatim>\<open>find_matches\<close>
    reads signatures back with \<^verbatim>\<open>dtype='int8'\<close>. Arithmetic on such arrays wraps
    around, so the elements are 8-bit words, read as signed by \<open>sint\<close>.
  \<^item> The word length \<open>k\<close> and the word count \<open>N\<close> of \<^verbatim>\<open>get_words\<close> are
    natural numbers; the constructor keeps whatever Python \<^verbatim>\<open>int\<close> it was given and
    \<^verbatim>\<open>make_record\<close> passes it on.
  \<^item> A Python \<^verbatim>\<open>float\<close> and a numpy \<^verbatim>\<open>float64\<close> are IEEE binary64
    numbers. A finite one is the real number it denotes; every operation computes the
    exact result and rounds it to the nearest binary64 number, ties to even
    (\<open>float64\<close> below). Overflow and subnormal numbers are out of reach of the
    magnitudes that occur here and are not modelled.
  \<^item> An exception is a value of type \<open>error\<close>; a function that can raise returns
    \<open>error + 'a\<close>.
\<close>

subsection \<open>Exceptions\<close>

datatype error =
    TypeError string
  | ValueError string
  | AttributeError string
  | KeyError string

subsection \<open>Binary64 arithmetic\<close>

text \<open>\<open>ilog2 n\<close> is the position of the leading bit of \<open>n\<close>.\<close>

function ilog2 :: "int \<Rightarrow> nat" where
  "ilog2 n = (if n < 2 then 0 else Suc (ilog2 (n div 2)))"
  by pat_completeness auto
termination
  by (relation "measure nat") auto

declare ilog2.simps [simp del]

text \<open>The binary exponent of a positive real: \<open>2 powi expo x \<le> x < 2 powi (expo x + 1)\<close>.\<close>

definition expo :: "real \<Rightarrow> int" where
  "expo x = (if 1 \<le> x then int (ilog2 \<lfloor>x\<rfloor>)
             else - int (ilog2 (\<lceil>1 / x\<rceil> - 1)) - 1)"

definition round_from :: "int \<Rightarrow> real \<Rightarrow> int" where
  "round_from f q =
     (if q - of_int f < 1 / 2 then f
      else if 1 / 2 < q - of_int f then f + 1
      else if even f then f else f + 1)"

text \<open>The nearest integer, a tie going to the even one.\<close>

definition round_half_even :: "real \<Rightarrow> int" where
  "round_half_even q = round_from \<lfloor>q\<rfloor> q"

text \<open>Rounding to binary64: 53 significant bits, nearest, ties to even.\<close>

definition round_at :: "int \<Rightarrow> real \<Rightarrow> real" where
  "round_at e x = of_int (round_half_even (x * 2 powi (- e))) * 2 powi e"

definition float64 :: "real \<Rightarrow> real" where
  "float64 x = (if x = 0 then 0 else sgn x * round_at (expo \<bar>x\<bar> - 52) \<bar>x\<bar>)"

text \<open>The integer square root, two bits of the argument for each bit of the result.\<close>

definition isqrt_step :: "int \<Rightarrow> int \<Rightarrow> int" where
  "isqrt_step n r = (if (2 * r + 1) * (2 * r + 1) \<le> n then 2 * r + 1 else 2 * r)"

function isqrt :: "int \<Rightarrow> int" where
  "isqrt n = (if n \<le> 0 then 0 else isqrt_step n (isqrt (n div 4)))"
  by pat_completeness auto
termination
  by (relation "measure nat") auto

declare isqrt.simps [simp del]

text \<open>
  The binary64 square root of an integer \<open>n\<close> with \<open>0 \<le> n < 2 ^ 106\<close>: the square
  root is scaled to 53 bits and rounded to the nearest integer (a tie cannot happen).
\<close>

definition nearest_sqrt :: "int \<Rightarrow> int \<Rightarrow> int" where
  "nearest_sqrt t r = (if t \<le> r * r + r then r else r + 1)"

definition sqrt_at :: "nat \<Rightarrow> int \<Rightarrow> real" where
  "sqrt_at e n =
     of_int (nearest_sqrt (n * 4 ^ (52 - e)) (isqrt (n * 4 ^ (52 - e)))) * 2 powi (int e - 52)"

definition fsqrt :: "int \<Rightarrow> real" where
  "fsqrt n = (if n \<le> 0 then 0 else sqrt_at (ilog2 n div 2) n)"

text \<open>The values of a Python float: the finite ones, the infinities and not-a-number.\<close>

datatype npfloat = Finite real | PosInf | NegInf | NaN

text \<open>The comparison \<^verbatim>\<open>a < b\<close> of IEEE numbers: false whenever not-a-number takes part.\<close>

fun float_lt :: "npfloat \<Rightarrow> npfloat \<Rightarrow> bool" where
  "float_lt NaN b = False"
| "float_lt a NaN = False"
| "float_lt (Finite x) (Finite y) = (x < y)"
| "float_lt (Finite x) PosInf = True"
| "float_lt (Finite x) NegInf = False"
| "float_lt PosInf b = False"
| "float_lt NegInf NegInf = False"
| "float_lt NegInf b = True"

text \<open>The quotient \<^verbatim>\<open>a / b\<close> of two finite numpy floats (numpy warns and goes on).\<close>

definition fdiv :: "real \<Rightarrow> real \<Rightarrow> npfloat" where
  "fdiv a b =
     (if b = 0 then (if a = 0 then NaN else if 0 < a then PosInf else NegInf)
      else Finite (float64 (a / b)))"

subsection \<open>Word extraction: get\_words\<close>

type_synonym int8 = "8 word"

text \<open>
  \<^verbatim>\<open>np.linspace(0, L, N, endpoint=False).astype('int')\<close>: numpy computes the step
  \<^verbatim>\<open>L / N\<close> in binary64, multiplies \<^verbatim>\<open>arange(0, N)\<close> by it, again in
  binary64, and \<^verbatim>\<open>astype\<close> drops the fraction (the values are not negative).
\<close>

definition position_at :: "real \<Rightarrow> nat \<Rightarrow> nat" where
  "position_at step i = nat \<lfloor>float64 (float64 (real i) * step)\<rfloor>"

definition word_positions :: "nat \<Rightarrow> nat \<Rightarrow> nat list" where
  "word_positions L N = map (position_at (float64 (real L / real N))) [0..<N]"

text \<open>
  The specification's words for the start positions: \<open>N\<close> evenly spaced points over
  \<open>[0, L)\<close>, the right endpoint excluded, floored. Point \<open>i\<close> is \<open>i * L / N\<close> in
  exact arithmetic.
\<close>

definition spec_word_positions :: "nat \<Rightarrow> nat \<Rightarrow> nat list" where
  "spec_word_positions L N = map (\<lambda>i. nat \<lfloor>real i * (real L / real N)\<rfloor>) [0..<N]"

text \<open>\<^verbatim>\<open>a[lo:hi]\<close> for \<open>0 \<le> lo \<le> hi\<close>, and \<^verbatim>\<open>a.resize(k)\<close> on a one-dimensional
  array: cut to \<open>k\<close> elements or filled up with zeros.\<close>

definition array_slice :: "nat \<Rightarrow> nat \<Rightarrow> 'a list \<Rightarrow> 'a list" where
  "array_slice lo hi a = take (hi - lo) (drop lo a)"

definition resize :: "nat \<Rightarrow> int8 list \<Rightarrow> int8 list" where
  "resize k a = take k a @ replicate (k - length a) 0"

definition get_words :: "int8 list \<Rightarrow> nat \<Rightarrow> nat \<Rightarrow> error + int8 list list" where
  "get_words array k N =
     (let positions = word_positions (length array) N in
      if k > length array
      then Inl (ValueError ''Word length cannot be longer than array length'')
      else if length positions > length array
      then Inl (ValueError ''Number of words cannot be more than array length'')
      else Inr (map (\<lambda>pos. if pos + k \<le> length array
                             then array_slice pos (pos + k) array
                             else resize k (drop pos array)) positions))"

subsection \<open>Quantisation: max\_contrast\<close>

text \<open>
  \<^verbatim>\<open>array[array > 0] = 1\<close>, then \<^verbatim>\<open>array[array < 0] = -1\<close>, on the two-dimensional
  \<^verbatim>\<open>int8\<close> array of words. The source changes the array in place and returns
  \<^verbatim>\<open>None\<close>; the model returns the changed array.
\<close>

definition max_contrast :: "int8 list list \<Rightarrow> int8 list list" where
  "max_contrast array =
     (let array1 = map (map (\<lambda>x. if 0 <s x then 1 else x)) array
      in map (map (\<lambda>x. if x <s 0 then - 1 else x)) array1)"

subsection \<open>Python strings\<close>

text \<open>\<^verbatim>\<open>str(i)\<close> for \<open>i \<ge> 0\<close>: the decimal digits.\<close>

definition digit_char :: "nat \<Rightarrow> char" where
  "digit_char d = char_of (48 + d)"

function str_nat :: "nat \<Rightarrow> string" where
  "str_nat n = (if n < 10 then [digit_char n] else str_nat (n div 10) @ [digit_char (n mod 10)])"
  by pat_completeness auto
termination
  by (relation "measure id") auto

declare str_nat.simps [simp del]

text \<open>\<^verbatim>\<open>s.find(sub)\<close>: the lowest index where \<open>sub\<close> starts in \<open>s\<close>, or \<open>-1\<close>.\<close>

fun find_from :: "string \<Rightarrow> string \<Rightarrow> int \<Rightarrow> int" where
  "find_from sub [] i = (if sub = [] then i else - 1)"
| "find_from sub (c # s) i =
     (if take (length sub) (c # s) = sub then i else find_from sub s (i + 1))"

definition str_find :: "string \<Rightarrow> string \<Rightarrow> int" where
  "str_find s sub = find_from sub s 0"

subsection \<open>Documents and the store\<close>

text \<open>
  A document is a Python dict, kept as an association list with one entry for each key:
  \<^verbatim>\<open>d[key] = v\<close> is \<open>AList.update\<close>, \<^verbatim>\<open>d[key]\<close> is \<open>map_of\<close> (a missing key
  raises \<^verbatim>\<open>KeyError\<close>) and \<^verbatim>\<open>d.keys()\<close> is \<open>map fst\<close>. The field values are
  those a \<^verbatim>\<open>SignatureCollection\<close> writes: the path, the lists made by
  \<^verbatim>\<open>tolist()\<close>, and the identifier the store adds.
\<close>

datatype bson = Str string | IntList "int list" | ObjectId nat

type_synonym document = "(string \<times> bson) list"

text \<open>
  Modelled from the spec: the store (a pymongo \<^verbatim>\<open>Collection\<close>) is not part of the
  source. Section 6 of the specification asks of it \<^verbatim>\<open>count()\<close>, and
  \<^verbatim>\<open>find(predicate)\<close> for an OR of field-equality clauses, which returns exactly the
  documents that satisfy some clause; \<^verbatim>\<open>find_one({})\<close> returns a stored document.
  The store is the list of its documents.
\<close>

definition matches_clause :: "document \<Rightarrow> string \<times> bson \<Rightarrow> bool" where
  "matches_clause doc clause = (map_of doc (fst clause) = Some (snd clause))"

definition find_or :: "document list \<Rightarrow> (string \<times> bson) list \<Rightarrow> document list" where
  "find_or docs clauses = filter (\<lambda>doc. list_ex (matches_clause doc) clauses) docs"

subsection \<open>The constructor\<close>

text \<open>
  The arguments of \<^verbatim>\<open>__init__\<close> are Python objects; the source tests their types with
  \<^verbatim>\<open>type(x) is not T\<close>, which tells \<^verbatim>\<open>int\<close> from \<^verbatim>\<open>long\<close>, \<^verbatim>\<open>bool\<close> and
  \<^verbatim>\<open>float\<close>.
\<close>

datatype pyobj =
    PyInt int
  | PyLong int
  | PyBool bool
  | PyFloat npfloat
  | PyStr string
  | PyNone
  | PyCollection "document list"

text \<open>The object's attributes. \<open>self_index_names\<close> is \<open>None\<close> while the attribute
  \<^verbatim>\<open>index_names\<close> has not been assigned.\<close>

record signature_collection =
  self_collection :: "document list"
  self_k :: int
  self_N :: int
  self_distance_cutoff :: npfloat
  self_index_names :: "string list option"

text \<open>\<^verbatim>\<open>[field for field in doc.keys() if field.find('simple') > -1]\<close>, in
  \<^verbatim>\<open>__init__\<close> and again at the end of \<^verbatim>\<open>add_images\<close>.\<close>

definition discover_index_names :: "document \<Rightarrow> string list" where
  "discover_index_names doc = filter (\<lambda>field. str_find field ''simple'' > - 1) (map fst doc)"

definition init :: "pyobj \<Rightarrow> pyobj \<Rightarrow> pyobj \<Rightarrow> pyobj \<Rightarrow> error + signature_collection" where
  "init collection k N distance_cutoff =
     (case collection of
        PyCollection docs \<Rightarrow>
          (case k of
             PyInt kv \<Rightarrow>
               (case N of
                  PyInt nv \<Rightarrow>
                    (case distance_cutoff of
                       PyFloat d \<Rightarrow>
                         if float_lt d (Finite 0)
                         then Inl (ValueError ''distance_cutoff should be > 0'')
                         else Inr \<lparr>self_collection = docs, self_k = kv, self_N = nv,
                                   self_distance_cutoff = d,
                                   self_index_names =
                                     (if length docs > 0
                                      then Some (discover_index_names (hd docs))
                                      else None)\<rparr>
                     | _ \<Rightarrow> Inl (TypeError ''distance_cutoff should be a float''))
                | _ \<Rightarrow> Inl (TypeError ''N should be an integer''))
           | _ \<Rightarrow> Inl (TypeError ''k should be an integer''))
      | _ \<Rightarrow> Inl (TypeError ''Expected MongoDB collection''))"

subsection \<open>Records: make\_record\<close>

definition slot_name :: "nat \<Rightarrow> string" where
  "slot_name i = ''simple_word_'' @ str_nat i"

text \<open>
  The signature generator \<^verbatim>\<open>self.gis.generate_signature\<close> is outside the source; it
  is the parameter \<open>gis\<close>. \<^verbatim>\<open>tolist()\<close> turns an \<^verbatim>\<open>int8\<close> array into a list of
  Python integers. numpy refuses a negative word length or word count with a
  \<^verbatim>\<open>ValueError\<close> (\<^verbatim>\<open>np.linspace\<close>, \<^verbatim>\<open>np.zeros\<close>).
\<close>

definition make_record ::
  "(string \<Rightarrow> int8 list) \<Rightarrow> signature_collection \<Rightarrow> string \<Rightarrow> error + document" where
  "make_record gis self path =
     (let record0 = AList.update ''path'' (Str path) [];
          signature = gis path;
          record1 = AList.update ''signature'' (IntList (map sint signature)) record0
      in if self_k self < 0 \<or> self_N self < 0
         then Inl (ValueError ''negative dimensions are not allowed'')
         else case get_words signature (nat (self_k self)) (nat (self_N self)) of
                Inl e \<Rightarrow> Inl e
              | Inr words \<Rightarrow>
                  Inr (fold (\<lambda>i record.
                               AList.update (slot_name i)
                                 (IntList (map sint (max_contrast words ! i))) record)
                         [0..<nat (self_N self)] record1))"

subsection \<open>Candidates: find\_word\_matches\<close>

text \<open>\<^verbatim>\<open>[{name: record[name]} for name in self.index_names]\<close>: the first name that
  the record lacks raises \<^verbatim>\<open>KeyError\<close>.\<close>

fun or_clauses :: "document \<Rightarrow> string list \<Rightarrow> error + (string \<times> bson) list" where
  "or_clauses record [] = Inr []"
| "or_clauses record (name # names) =
     (case map_of record name of
        None \<Rightarrow> Inl (KeyError name)
      | Some v \<Rightarrow>
          (case or_clauses record names of
             Inl e \<Rightarrow> Inl e
           | Inr clauses \<Rightarrow> Inr ((name, v) # clauses)))"

definition find_word_matches ::
  "signature_collection \<Rightarrow> document \<Rightarrow> error + document list" where
  "find_word_matches self record =
     (case self_index_names self of
        None \<Rightarrow> Inl (AttributeError ''index_names'')
      | Some names \<Rightarrow>
          (case or_clauses record names of
             Inl e \<Rightarrow> Inl e
           | Inr clauses \<Rightarrow> Inr (find_or (self_collection self) clauses)))"

subsection \<open>Ranking: normalized\_distance and find\_matches\<close>

text \<open>
  \<^verbatim>\<open>vec - target_array\<close> row by row, as numpy broadcasts it: equal lengths are
  subtracted element by element, a single element is spread over the other operand.
  Both arrays are \<^verbatim>\<open>int8\<close>, so the difference wraps around.
\<close>

definition broadcast_sub :: "int8 list \<Rightarrow> int8 list \<Rightarrow> int8 list option" where
  "broadcast_sub vec row =
     (if length row = length vec then Some (map2 (-) vec row)
      else if length vec = 1 then Some (map (\<lambda>y. hd vec - y) row)
      else if length row = 1 then Some (map (\<lambda>x. x - hd row) vec)
      else None)"

text \<open>
  \<^verbatim>\<open>np.linalg.norm\<close> along an axis: the array is converted to binary64, the squares
  are summed (exactly, as long as the sum stays below \<open>2 ^ 53\<close>) and the square root
  is taken.
\<close>

definition linalg_norm :: "int8 list \<Rightarrow> real" where
  "linalg_norm v = fsqrt (\<Sum>x\<leftarrow>v. sint x * sint x)"

definition distance_row :: "int8 list \<Rightarrow> int8 list \<Rightarrow> error + npfloat" where
  "distance_row vec row =
     (case broadcast_sub vec row of
        None \<Rightarrow> Inl (ValueError ''operands could not be broadcast together'')
      | Some diff \<Rightarrow>
          Inr (fdiv (linalg_norm diff) (float64 (linalg_norm vec + linalg_norm row))))"

fun collect :: "(error + 'a) list \<Rightarrow> error + 'a list" where
  "collect [] = Inr []"
| "collect (r # rs) =
     (case r of
        Inl e \<Rightarrow> Inl e
      | Inr x \<Rightarrow> (case collect rs of Inl e \<Rightarrow> Inl e | Inr xs \<Rightarrow> Inr (x # xs)))"

definition normalized_distance :: "int8 list list \<Rightarrow> int8 list \<Rightarrow> error + npfloat list" where
  "normalized_distance target_array vec = collect (map (distance_row vec) target_array)"



text \<open>
  \<^verbatim>\<open>np.array(map(lambda x: x['signature'], t), dtype='int8')\<close>: every document needs
  a \<^verbatim>\<open>signature\<close> that is a list of integers, and the lists need one length.
\<close>

definition signature_of :: "document \<Rightarrow> error + int8 list" where
  "signature_of doc =
     (case map_of doc ''signature'' of
        None \<Rightarrow> Inl (KeyError ''signature'')
      | Some (IntList xs) \<Rightarrow> Inr (map word_of_int xs)
      | Some _ \<Rightarrow> Inl (ValueError ''signature is not a list of integers''))"

definition path_of :: "document \<Rightarrow> error + bson" where
  "path_of doc = (case map_of doc ''path'' of None \<Rightarrow> Inl (KeyError ''path'') | Some p \<Rightarrow> Inr p)"

definition rectangular :: "'a list list \<Rightarrow> bool" where
  "rectangular rows = list_all (\<lambda>row. length row = length (hd rows)) rows"

text \<open>
  With no candidate, \<^verbatim>\<open>np.array([])\<close> is one-dimensional and the distance along
  axis 1 raises \<^verbatim>\<open>ValueError\<close>. Otherwise the result is \<^verbatim>\<open>zip(d[w], paths[w])\<close> for
  the mask \<^verbatim>\<open>w = d < self.distance_cutoff\<close>.
\<close>

definition find_matches ::
  "(string \<Rightarrow> int8 list) \<Rightarrow> signature_collection \<Rightarrow> string \<Rightarrow> error + (npfloat \<times> bson) list" where
  "find_matches gis self path =
     (case make_record gis self path of
        Inl e \<Rightarrow> Inl e
      | Inr record \<Rightarrow>
     (case find_word_matches self record of
        Inl e \<Rightarrow> Inl e
      | Inr t \<Rightarrow>
     (case collect (map signature_of t) of
        Inl e \<Rightarrow> Inl e
      | Inr sigs \<Rightarrow>
     (if \<not> rectangular sigs then Inl (ValueError ''setting an array element with a sequence'')
      else case collect (map path_of t) of
        Inl e \<Rightarrow> Inl e
      | Inr paths \<Rightarrow>
     (case signature_of record of
        Inl e \<Rightarrow> Inl e
      | Inr vec \<Rightarrow>
     (if t = [] then Inl (ValueError ''operands could not be broadcast together'')
      else case normalized_distance sigs vec of
        Inl e \<Rightarrow> Inl e
      | Inr d \<Rightarrow>
          Inr (filter (\<lambda>(x, p). float_lt x (self_distance_cutoff self)) (zip d paths))))))))"

section \<open>Properties\<close>

subsection \<open>Rounding to binary64\<close>

text \<open>
  Rounding a non-negative real to binary64 changes it by at most the fraction
  \<open>1 / 2 ^ 53\<close> of its value; three roundings in a row, as in a start position, by at
  most \<open>4 / 2 ^ 53\<close>.
\<close>

lemma ilog2_bounds: "1 \<le> n \<Longrightarrow> 2 ^ ilog2 n \<le> n \<and> n < 2 ^ (ilog2 n + 1)"
proof (induction n rule: ilog2.induct)
  case (1 n)
  show ?case
  proof (cases "n < 2")
    case True
    with "1.prems" have "n = 1" by simp
    then show ?thesis by (subst (1 2) ilog2.simps) simp
  next
    case False
    then have "1 \<le> n div 2" by simp
    from "1.IH" [OF False this] have
      lo: "2 ^ ilog2 (n div 2) \<le> n div 2" and hi: "n div 2 < 2 ^ (ilog2 (n div 2) + 1)"
      by simp_all
    have eq: "ilog2 n = Suc (ilog2 (n div 2))"
      using False by (subst ilog2.simps) simp
    have "2 * 2 ^ ilog2 (n div 2) \<le> n" using lo by simp
    moreover have "n < 2 * 2 ^ (ilog2 (n div 2) + 1)" using hi by simp
    ultimately show ?thesis by (simp add: eq)
  qed
qed

lemma powi_nat: "(2::real) powi int n = 2 ^ n"
  by simp

lemma powi_neg_nat: "(2::real) powi (- int n) = 1 / 2 ^ n"
  by (simp add: power_int_minus divide_inverse)

lemma of_int_pow2_le: "(2::int) ^ m \<le> c \<Longrightarrow> (2::real) ^ m \<le> real_of_int c"
proof -
  assume "(2::int) ^ m \<le> c"
  then have "real_of_int (2 ^ m) \<le> real_of_int c" by (simp only: of_int_le_iff)
  then show ?thesis by simp
qed

lemma of_int_pow2_less: "c < (2::int) ^ m \<Longrightarrow> real_of_int c + 1 \<le> 2 ^ m"
proof -
  assume "c < (2::int) ^ m"
  then have "c + 1 \<le> 2 ^ m" by simp
  then have "real_of_int (c + 1) \<le> real_of_int (2 ^ m)" by (simp only: of_int_le_iff)
  then show ?thesis by simp
qed

lemma expo_bounds:
  assumes "0 < x"
  shows "2 powi expo x \<le> x" and "x < 2 powi (expo x + 1)"
proof -
  have "2 powi expo x \<le> x \<and> x < 2 powi (expo x + 1)"
  proof (cases "1 \<le> x")
    case True
    then have f: "1 \<le> \<lfloor>x\<rfloor>" by simp
    define m where "m = ilog2 \<lfloor>x\<rfloor>"
    from ilog2_bounds [OF f] have
      lo: "(2::int) ^ m \<le> \<lfloor>x\<rfloor>" and hi: "\<lfloor>x\<rfloor> < 2 ^ (m + 1)"
      by (simp_all add: m_def)
    have e: "expo x = int m" using True by (simp add: expo_def m_def)
    have e1: "expo x + 1 = int (m + 1)" by (simp add: e)
    have "(2::real) ^ m \<le> of_int \<lfloor>x\<rfloor>" by (rule of_int_pow2_le [OF lo])
    also have "\<dots> \<le> x" by simp
    finally have a: "(2::real) ^ m \<le> x" .
    have "real_of_int \<lfloor>x\<rfloor> + 1 \<le> 2 ^ (m + 1)" by (rule of_int_pow2_less [OF hi])
    moreover have "x < real_of_int \<lfloor>x\<rfloor> + 1" by linarith
    ultimately have b: "x < 2 ^ (m + 1)" by linarith
    show ?thesis
      unfolding e1 unfolding e powi_nat using a b by blast
  next
    case False
    define c where "c = \<lceil>1 / x\<rceil> - 1"
    define m where "m = ilog2 c"
    from False assms have "1 < 1 / x" by simp
    then have "2 \<le> \<lceil>1 / x\<rceil>" by linarith
    then have c1: "1 \<le> c" unfolding c_def by simp
    have "real_of_int \<lceil>1 / x\<rceil> - 1 < 1 / x" "1 / x \<le> real_of_int \<lceil>1 / x\<rceil>"
      by linarith+
    then have cx: "real_of_int c < 1 / x" "1 / x \<le> real_of_int c + 1"
      unfolding c_def by simp_all
    from ilog2_bounds [OF c1] have
      lo: "(2::int) ^ m \<le> c" and hi: "c < 2 ^ (m + 1)"
      by (simp_all add: m_def)
    have e: "expo x = - int (m + 1)" using False by (simp add: expo_def c_def m_def)
    have e1: "expo x + 1 = - int m" by (simp add: e)
    have "real_of_int c + 1 \<le> 2 ^ (m + 1)" by (rule of_int_pow2_less [OF hi])
    with cx have "1 / x \<le> 2 ^ (m + 1)" by linarith
    then have "1 \<le> 2 ^ (m + 1) * x"
      using assms by (simp add: pos_divide_le_eq)
    then have a: "1 / 2 ^ (m + 1) \<le> x"
      by (simp add: pos_divide_le_eq mult.commute)
    have "(2::real) ^ m \<le> real_of_int c" by (rule of_int_pow2_le [OF lo])
    with cx have "2 ^ m < 1 / x" by linarith
    then have "2 ^ m * x < 1"
      using assms by (simp add: pos_less_divide_eq)
    then have b: "x < 1 / 2 ^ m"
      by (simp add: pos_less_divide_eq mult.commute)
    show ?thesis
      unfolding e1 unfolding e powi_neg_nat using a b by blast
  qed
  then show "2 powi expo x \<le> x" and "x < 2 powi (expo x + 1)" by simp_all
qed

lemma round_half_even_error: "\<bar>real_of_int (round_half_even q) - q\<bar> \<le> 1 / 2"
  unfolding round_half_even_def round_from_def
  by (auto simp: abs_if) linarith+

lemma float64_error:
  assumes "0 < x"
  shows "\<bar>float64 x - x\<bar> \<le> x / 2 ^ 53"
proof -
  define e where "e = expo x - 52"
  define q where "q = x * 2 powi (- e)"
  have pos: "(0::real) < 2 powi e" by simp
  have f: "float64 x = of_int (round_half_even q) * 2 powi e"
    using assms by (simp add: float64_def round_at_def e_def q_def)
  have xq: "x = q * 2 powi e"
    by (simp add: q_def power_int_minus field_simps)
  have "\<bar>float64 x - x\<bar> = \<bar>real_of_int (round_half_even q) - q\<bar> * 2 powi e"
    unfolding f by (subst xq) (simp add: abs_mult left_diff_distrib [symmetric])
  also have "\<dots> \<le> 1 / 2 * 2 powi e"
    by (intro mult_right_mono round_half_even_error) simp
  also have "\<dots> = 2 powi expo x / 2 ^ 53"
    unfolding e_def by (simp add: power_int_diff)
  also have "\<dots> \<le> x / 2 ^ 53"
    using expo_bounds(1) [OF assms] by (simp add: divide_right_mono)
  finally show ?thesis .
qed

lemma float64_error0: "0 \<le> x \<Longrightarrow> \<bar>float64 x - x\<bar> \<le> x / 2 ^ 53"
proof (cases "x = 0")
  case True
  then show ?thesis by (simp add: float64_def)
next
  case False
  assume "0 \<le> x"
  with False have "0 < x" by simp
  then show ?thesis by (rule float64_error)
qed

lemma float64_between:
  assumes "0 \<le> x"
  shows "x * (1 - 1 / 2 ^ 53) \<le> float64 x" and "float64 x \<le> x * (1 + 1 / 2 ^ 53)"
proof -
  define u :: real where "u = 1 / 2 ^ 53"
  have "\<bar>float64 x - x\<bar> \<le> x * u"
    using float64_error0 [OF assms] by (simp add: u_def)
  then have e: "float64 x - x \<le> x * u" "x - float64 x \<le> x * u"
    by linarith+
  have d1: "x * (1 - u) = x - x * u"
    by (simp add: right_diff_distrib)
  have d2: "x * (1 + u) = x + x * u"
    by (simp add: distrib_left)
  have "x * (1 - u) \<le> float64 x" "float64 x \<le> x * (1 + u)"
    unfolding d1 d2 using e by linarith+
  then show "x * (1 - 1 / 2 ^ 53) \<le> float64 x" and "float64 x \<le> x * (1 + 1 / 2 ^ 53)"
    unfolding u_def by blast+
qed

lemma float64_nonneg: "0 \<le> x \<Longrightarrow> 0 \<le> float64 x"
proof -
  assume x: "0 \<le> x"
  have "0 \<le> x * (1 - 1 / 2 ^ 53)"
    using x by (intro mult_nonneg_nonneg) simp_all
  with float64_between(1) [OF x] show ?thesis by linarith
qed

lemma product_error:
  assumes i0: "0 \<le> i" and r0: "0 \<le> r"
  shows "\<bar>float64 (float64 i * float64 r) - i * r\<bar> \<le> i * r * (4 / 2 ^ 53)"
    and "0 \<le> float64 (float64 i * float64 r)"
proof -
  define lo :: real where "lo = 1 - 1 / 2 ^ 53"
  define hi :: real where "hi = 1 + 1 / 2 ^ 53"
  define c :: real where "c = 4 / 2 ^ 53"
  define a where "a = float64 i"
  define s where "s = float64 r"
  define x where "x = a * s"
  define p where "p = float64 x"
  define y where "y = i * r"
  have lo0: "0 \<le> lo" and hi0: "0 \<le> hi" by (simp_all add: lo_def hi_def)
  have a: "i * lo \<le> a" "a \<le> i * hi"
    using float64_between [OF i0] by (simp_all add: a_def lo_def hi_def)
  have s: "r * lo \<le> s" "s \<le> r * hi"
    using float64_between [OF r0] by (simp_all add: s_def lo_def hi_def)
  have a0: "0 \<le> a" unfolding a_def by (rule float64_nonneg [OF i0])
  have s0: "0 \<le> s" unfolding s_def by (rule float64_nonneg [OF r0])
  have x0: "0 \<le> x" unfolding x_def using a0 s0 by simp
  have rl: "0 \<le> r * lo" using r0 lo0 by simp
  have ih: "0 \<le> i * hi" using i0 hi0 by simp
  have "(i * lo) * (r * lo) \<le> a * s"
    by (rule mult_mono [OF a(1) s(1) a0 rl])
  then have x1: "y * (lo * lo) \<le> x" by (simp add: x_def y_def mult_ac)
  have "a * s \<le> (i * hi) * (r * hi)"
    by (rule mult_mono [OF a(2) s(2) ih s0])
  then have x2: "x \<le> y * (hi * hi)" by (simp add: x_def y_def mult_ac)
  have p: "x * lo \<le> p" "p \<le> x * hi"
    using float64_between [OF x0] by (simp_all add: p_def lo_def hi_def)
  have "y * (lo * lo) * lo \<le> x * lo"
    by (rule mult_right_mono [OF x1 lo0])
  with p(1) have p1: "y * (lo * lo * lo) \<le> p" by (simp add: mult.assoc)
  have "x * hi \<le> y * (hi * hi) * hi"
    by (rule mult_right_mono [OF x2 hi0])
  with p(2) have p2: "p \<le> y * (hi * hi * hi)" by (simp add: mult.assoc)
  have y0: "0 \<le> y" using i0 r0 by (simp add: y_def)
  have n1: "1 - c \<le> lo * lo * lo" by (simp add: lo_def c_def)
  have n2: "hi * hi * hi \<le> 1 + c" by (simp add: hi_def c_def)
  have "y * (1 - c) \<le> y * (lo * lo * lo)"
    by (rule mult_left_mono [OF n1 y0])
  moreover have "y * (1 - c) = y - y * c" by (simp add: algebra_simps)
  ultimately have q1: "y - y * c \<le> p" using p1 by linarith
  have "y * (hi * hi * hi) \<le> y * (1 + c)"
    by (rule mult_left_mono [OF n2 y0])
  moreover have "y * (1 + c) = y + y * c" by (simp add: algebra_simps)
  ultimately have q2: "p \<le> y + y * c" using p2 by linarith
  from q1 q2 have "\<bar>p - y\<bar> \<le> y * c"
    by linarith
  then show "\<bar>float64 (float64 i * float64 r) - i * r\<bar> \<le> i * r * (4 / 2 ^ 53)"
    unfolding p_def x_def a_def s_def y_def c_def .
  show "0 \<le> float64 (float64 i * float64 r)"
    using float64_nonneg [OF x0] by (simp add: x_def a_def s_def)
qed

lemma floor_near:
  fixes m N :: nat and p :: real
  assumes N: "0 < N" and p0: "0 \<le> p"
    and close: "\<bar>p - real m / real N\<bar> < 1 / real N"
  shows "(\<not> N dvd m \<longrightarrow> nat \<lfloor>p\<rfloor> = m div N) \<and>
         (nat \<lfloor>p\<rfloor> = m div N \<or> nat \<lfloor>p\<rfloor> + 1 = m div N)"
proof -
  define q where "q = m div N"
  define t where "t = m mod N"
  define w :: real where "w = 1 / real N"
  have m: "m = q * N + t" by (simp add: q_def t_def)
  have tN: "t < N" using N by (simp add: t_def)
  have w0: "0 < w" using N by (simp add: w_def)
  have w1: "w \<le> 1" using N by (simp add: w_def)
  have "real m = real q * real N + real t" by (simp add: m)
  then have mN: "real m / real N = real q + real t * w"
    using N by (simp add: w_def field_simps)
  from close have c: "real q + real t * w - w < p" "p < real q + real t * w + w"
    unfolding mN w_def [symmetric] by linarith+
  show ?thesis
  proof (cases "t = 0")
    case True
    with c w1 have "real q - 1 < p" "p < real q + 1" by simp_all
    then have "\<lfloor>p\<rfloor> = int q \<or> \<lfloor>p\<rfloor> = int q - 1"
      by linarith
    moreover have "0 \<le> \<lfloor>p\<rfloor>" using p0 by simp
    ultimately have "nat \<lfloor>p\<rfloor> = q \<or> nat \<lfloor>p\<rfloor> + 1 = q"
      by auto
    moreover have "N dvd m" using True by (simp add: t_def dvd_eq_mod_eq_0)
    ultimately show ?thesis by (simp add: q_def)
  next
    case False
    then have "1 \<le> real t" by simp
    then have a: "w \<le> real t * w" using w0 by simp
    have "real t + 1 \<le> real N" using tN by linarith
    then have "(real t + 1) * w \<le> real N * w"
      using w0 by (intro mult_right_mono) simp_all
    moreover have "real N * w = 1" using N by (simp add: w_def)
    moreover have "(real t + 1) * w = real t * w + w" by (simp add: algebra_simps)
    ultimately have b: "real t * w + w \<le> 1" by linarith
    from c a b have "real q < p" "p < real q + 1" by linarith+
    then have "\<lfloor>p\<rfloor> = int q" by linarith
    then show ?thesis by (simp add: q_def)
  qed
qed

subsection \<open>Word extraction\<close>

lemma length_word_positions: "length (word_positions L N) = N"
  by (simp add: word_positions_def)

text \<open>
  Claim C3. \<^verbatim>\<open>get_words\<close> raises \<^verbatim>\<open>ValueError\<close> when the word length \<open>k\<close>
  exceeds the length of the signature, raises \<^verbatim>\<open>ValueError\<close> when the word count
  \<open>N\<close> exceeds it, and returns words when neither does.
\<close>

theorem get_words_errors:
  "(length array < k \<longrightarrow>
      get_words array k N = Inl (ValueError ''Word length cannot be longer than array length'')) \<and>
   (k \<le> length array \<and> length array < N \<longrightarrow>
      get_words array k N = Inl (ValueError ''Number of words cannot be more than array length'')) \<and>
   (length array < N \<longrightarrow> (\<exists>e. get_words array k N = Inl e)) \<and>
   (k \<le> length array \<and> N \<le> length array \<longrightarrow> (\<exists>words. get_words array k N = Inr words))"
  by (simp add: get_words_def length_word_positions Let_def)

theorem get_words_errors_witness:
  "get_words [1, 2] 3 1 = Inl (ValueError ''Word length cannot be longer than array length'') \<and>
   get_words [1, 2] 1 3 = Inl (ValueError ''Number of words cannot be more than array length'') \<and>
   (\<exists>e. get_words [1, 2] 3 3 = Inl e) \<and>
   (\<exists>words. get_words [1, 2] 1 2 = Inr words)"
  using get_words_errors [of "[1, 2]" 3 1] get_words_errors [of "[1, 2]" 1 3]
    get_words_errors [of "[1, 2]" 3 3] get_words_errors [of "[1, 2]" 1 2]
  by simp

lemma position_at_near:
  assumes N: "0 < N" and NL: "N \<le> L" and i: "i < N" and size: "L * N \<le> 2 ^ 51"
  shows "(\<not> N dvd i * L \<longrightarrow> position_at (float64 (real L / real N)) i = i * L div N) \<and>
         (position_at (float64 (real L / real N)) i = i * L div N \<or>
          position_at (float64 (real L / real N)) i + 1 = i * L div N)"
proof -
  define r where "r = real L / real N"
  define p where "p = float64 (float64 (real i) * float64 r)"
  define c :: real where "c = 4 / 2 ^ 53"
  have r0: "0 \<le> r" by (simp add: r_def)
  have L0: "0 < L" using N NL by simp
  from product_error [OF _ r0, of "real i"] have
    err: "\<bar>p - real i * r\<bar> \<le> real i * r * c" and p0: "0 \<le> p"
    by (simp_all add: p_def c_def)
  have ir: "real i * r = real (i * L) / real N" by (simp add: r_def)
  have "real (i * L) < real (N * L)"
    using i L0 by (simp only: of_nat_less_iff) simp
  then have "real (i * L) / real N < real (N * L) / real N"
    using N by (simp only: divide_strict_right_mono of_nat_0_less_iff)
  then have lt: "real i * r < real L" using N by (simp add: ir)
  have c0: "0 < c" by (simp add: c_def)
  have "real (L * N) \<le> 2 ^ 51"
    using size by (metis of_nat_le_iff of_nat_numeral of_nat_power)
  then have "real L * real N * c \<le> 2 ^ 51 * c"
    using c0 by (intro mult_right_mono) simp_all
  also have "\<dots> = 1" by (simp add: c_def)
  finally have "real L * c * real N \<le> 1" by (simp add: mult_ac)
  then have Lc: "real L * c \<le> 1 / real N"
    using N by (simp add: pos_le_divide_eq)
  have "real i * r * c < real L * c"
    using lt c0 by (simp only: mult_strict_right_mono)
  with err Lc have "\<bar>p - real i * r\<bar> < 1 / real N" by linarith
  then have close: "\<bar>p - real (i * L) / real N\<bar> < 1 / real N" by (simp only: ir)
  from floor_near [OF N p0 close] show ?thesis
    by (simp add: position_at_def p_def r_def)
qed

lemma spec_word_positions_nth: "i < N \<Longrightarrow> spec_word_positions L N ! i = i * L div N"
proof -
  assume "i < N"
  have "real i * (real L / real N) = real (i * L) / real N" by simp
  then have "\<lfloor>real i * (real L / real N)\<rfloor> = int (i * L div N)"
    by (simp only: floor_divide_of_nat_eq)
  with \<open>i < N\<close> show ?thesis by (simp add: spec_word_positions_def)
qed

lemma word_positions_nth:
  "i < N \<Longrightarrow> word_positions L N ! i = position_at (float64 (real L / real N)) i"
  by (simp add: word_positions_def)

lemma position_at_0: "position_at s 0 = 0"
  by (simp add: position_at_def float64_def)

lemma get_words_lengths:
  assumes "k \<le> length array" and "N \<le> length array"
  shows "\<exists>words. get_words array k N = Inr words \<and> length words = N \<and>
           (\<forall>w \<in> set words. length w = k)"
  using assms
  by (auto simp: get_words_def Let_def length_word_positions array_slice_def resize_def)

text \<open>
  Claim C1, amended. For a signature of length \<open>L\<close> with \<open>k \<le> L\<close>, \<open>N \<le> L\<close> and
  \<open>L * N \<le> 2 ^ 51\<close>, \<^verbatim>\<open>get_words\<close> returns exactly \<open>N\<close> words, each of length
  \<open>k\<close>. The start positions begin at \<open>0\<close>, do not decrease and stay below \<open>L\<close>.
  Start position \<open>i\<close> is the floor of the binary64 product of \<open>i\<close> and the binary64
  quotient \<open>L / N\<close>: it is the floor of \<open>i * L / N\<close> whenever that point is not an
  integer, and that integer or the one below it otherwise.
\<close>

theorem get_words_positions:
  assumes k: "k \<le> length array" and NL: "N \<le> length array"
    and size: "length array * N \<le> 2 ^ 51"
  shows "(\<exists>words. get_words array k N = Inr words \<and> length words = N \<and>
            (\<forall>w \<in> set words. length w = k)) \<and>
         length (word_positions (length array) N) = N \<and>
         (0 < N \<longrightarrow> word_positions (length array) N ! 0 = 0) \<and>
         sorted (word_positions (length array) N) \<and>
         (\<forall>p \<in> set (word_positions (length array) N). p < length array) \<and>
         (\<forall>i<N.
            (\<not> N dvd i * length array \<longrightarrow>
               word_positions (length array) N ! i = spec_word_positions (length array) N ! i) \<and>
            (word_positions (length array) N ! i = spec_word_positions (length array) N ! i \<or>
             word_positions (length array) N ! i + 1 = spec_word_positions (length array) N ! i))"
proof -
  define L where "L = length array"
  define ps where "ps = word_positions L N"
  have len: "length ps = N" by (simp add: ps_def length_word_positions)
  have char: "(\<not> N dvd i * L \<longrightarrow> ps ! i = i * L div N) \<and>
              (ps ! i = i * L div N \<or> ps ! i + 1 = i * L div N)" if "i < N" for i
  proof -
    from that have "0 < N" by simp
    from position_at_near [OF this NL [folded L_def] that size [folded L_def]] show ?thesis
      by (simp add: ps_def word_positions_nth [OF that])
  qed
  have upper: "ps ! i \<le> i * L div N" if "i < N" for i
    using char [OF that] by auto
  have lower: "i * L div N \<le> ps ! i + 1" if "i < N" for i
    using char [OF that] by auto
  have first: "0 < N \<longrightarrow> ps ! 0 = 0"
    by (simp add: ps_def word_positions_nth position_at_0)
  have step: "i * L div N + 1 \<le> j * L div N" if "i < j" "j < N" for i j
  proof -
    from that have N0: "0 < N" by simp
    have "i * L + N \<le> i * L + L" using NL by (simp add: L_def)
    also have "\<dots> = Suc i * L" by simp
    also have "\<dots> \<le> j * L" using that(1) by (intro mult_le_mono1) simp
    finally have "(i * L + N) div N \<le> j * L div N" by (rule div_le_mono)
    then show ?thesis using N0 by simp
  qed
  have mono: "ps ! i \<le> ps ! j" if "i \<le> j" "j < N" for i j
  proof (cases "i = j")
    case True
    then show ?thesis by simp
  next
    case False
    with that have ij: "i < j" by simp
    with that have "i < N" by simp
    from upper [OF this] step [OF ij that(2)] lower [OF that(2)] show ?thesis by linarith
  qed
  have sorted: "sorted ps"
    unfolding sorted_iff_nth_mono using mono by (simp add: len)
  have below: "\<forall>p \<in> set ps. p < L"
  proof
    fix p assume "p \<in> set ps"
    then obtain i where i: "i < N" and p: "p = ps ! i"
      by (auto simp: in_set_conv_nth len)
    from i NL have "0 < length array" by linarith
    then have L0: "0 < L" by (simp only: L_def)
    have "i * L < L * N" using i L0 by simp
    then have "i * L div N < L"
      using i by (simp add: div_less_iff_less_mult)
    with upper [OF i] show "p < L" by (simp add: p)
  qed
  have spec: "(\<not> N dvd i * L \<longrightarrow> ps ! i = spec_word_positions L N ! i) \<and>
              (ps ! i = spec_word_positions L N ! i \<or> ps ! i + 1 = spec_word_positions L N ! i)"
    if "i < N" for i
    using char [OF that] by (simp add: spec_word_positions_nth [OF that])
  show ?thesis
    using get_words_lengths [OF k NL] len first sorted below spec
    unfolding ps_def L_def by blast
qed

theorem get_words_positions_witness:
  "(\<exists>words. get_words [2, - 1, 0, 3, - 4, 1, 0, 2] 3 4 = Inr words \<and> length words = 4) \<and>
   length (word_positions 8 4) = 4 \<and>
   sorted (word_positions 8 4)"
proof -
  have len: "length [2, - 1, 0, 3, - 4, 1, 0, 2 :: int8] = 8"
    by simp
  have "3 \<le> length [2, - 1, 0, 3, - 4, 1, 0, 2 :: int8]"
    "4 \<le> length [2, - 1, 0, 3, - 4, 1, 0, 2 :: int8]"
    "length [2, - 1, 0, 3, - 4, 1, 0, 2 :: int8] * 4 \<le> 2 ^ 51"
    by simp_all
  from get_words_positions [OF this] show ?thesis
    unfolding len by blast
qed

text \<open>
  Claim C1 as stated fails. For \<open>L = 30\<close> and \<open>N = 22\<close> the point \<open>11 * 30 / 22\<close> is
  \<open>15\<close>, but the binary64 product is just below \<open>15\<close> and start position \<open>11\<close> is
  \<open>14\<close>: word \<open>11\<close> of the signature \<open>[0, 1, \<dots>, 29]\<close> is \<open>[14]\<close>.
\<close>

theorem get_words_position_not_floor:
  "word_positions 30 22 ! 11 = 14 \<and>
   spec_word_positions 30 22 ! 11 = 15 \<and>
   (\<exists>words. get_words (map of_nat [0..<30]) 1 22 = Inr words \<and> words ! 11 = [14])"
proof -
  have "position_at (float64 (30 / 22)) 11 = 14"
    by code_simp
  then have a: "word_positions 30 22 ! 11 = 14"
    by (simp add: word_positions_nth)
  have b: "spec_word_positions 30 22 ! 11 = 15"
    by (simp add: spec_word_positions_nth)
  have "get_words (map of_nat [0..<30]) 1 22 =
      Inr (map (\<lambda>pos. if pos + 1 \<le> 30 then array_slice pos (pos + 1) (map of_nat [0..<30])
                         else resize 1 (drop pos (map of_nat [0..<30])))
            (word_positions 30 22))"
    by (simp add: get_words_def length_word_positions)
  moreover have "map (\<lambda>pos. if pos + 1 \<le> 30 then array_slice pos (pos + 1) (map of_nat [0..<30])
                         else resize 1 (drop pos (map of_nat [0..<30])))
            (word_positions 30 22) ! 11 = [14 :: int8]"
    by (simp add: length_word_positions a array_slice_def drop_map take_map)
  ultimately show ?thesis
    using a b by simp
qed

lemma word_positions_8_4: "word_positions 8 4 = [0, 2, 4, 6]"
  by code_simp

lemma get_words_Inr:
  assumes "get_words array k N = Inr words"
  shows "k \<le> length array" and "N \<le> length array"
    and "words = map (\<lambda>pos. if pos + k \<le> length array
                             then array_slice pos (pos + k) array
                             else resize k (drop pos array)) (word_positions (length array) N)"
  using assms
  by (auto simp: get_words_def Let_def length_word_positions split: if_splits)

lemma resize_short: "length a \<le> k \<Longrightarrow> resize k a = a @ replicate (k - length a) 0"
  by (simp add: resize_def)

text \<open>
  Claim C2. The word at start position \<open>p\<close> is \<^verbatim>\<open>signature[p : p + k]\<close> when
  \<open>p + k \<le> L\<close>, and \<^verbatim>\<open>signature[p:]\<close> followed by zeros up to length \<open>k\<close>
  otherwise; element \<open>j\<close> of it is element \<open>p + j\<close> of the signature, or zero past
  the end. For the signature \<open>[2, -1, 0, 3, -4, 1, 0, 2]\<close> with \<open>k = 3\<close> and \<open>N = 4\<close>
  the start positions are \<open>[0, 2, 4, 6]\<close>, the last word is \<open>[0, 2, 0]\<close> and the
  quantised first word is \<open>[1, -1, 0]\<close>.
\<close>

theorem get_words_word:
  "(get_words array k N = Inr words \<and> i < N \<longrightarrow>
      length (words ! i) = k \<and>
      (word_positions (length array) N ! i + k \<le> length array \<longrightarrow>
         words ! i = take k (drop (word_positions (length array) N ! i) array)) \<and>
      (length array < word_positions (length array) N ! i + k \<longrightarrow>
         words ! i = drop (word_positions (length array) N ! i) array @
            replicate (k - (length array - word_positions (length array) N ! i)) 0) \<and>
      (\<forall>j<k. words ! i ! j =
         (if word_positions (length array) N ! i + j < length array
          then array ! (word_positions (length array) N ! i + j) else 0))) \<and>
   word_positions 8 4 = [0, 2, 4, 6] \<and>
   get_words [2, - 1, 0, 3, - 4, 1, 0, 2] 3 4 =
     Inr [[2, - 1, 0], [0, 3, - 4], [- 4, 1, 0], [0, 2, 0]] \<and>
   max_contrast [[2, - 1, 0], [0, 3, - 4], [- 4, 1, 0], [0, 2, 0]] ! 0 = [1, - 1, 0]"
proof -
  have general: "length (words ! i) = k \<and>
      (word_positions (length array) N ! i + k \<le> length array \<longrightarrow>
         words ! i = take k (drop (word_positions (length array) N ! i) array)) \<and>
      (length array < word_positions (length array) N ! i + k \<longrightarrow>
         words ! i = drop (word_positions (length array) N ! i) array @
            replicate (k - (length array - word_positions (length array) N ! i)) 0) \<and>
      (\<forall>j<k. words ! i ! j =
         (if word_positions (length array) N ! i + j < length array
          then array ! (word_positions (length array) N ! i + j) else 0))"
    if g: "get_words array k N = Inr words" and i: "i < N"
  proof -
    define p where "p = word_positions (length array) N ! i"
    have w: "words ! i = (if p + k \<le> length array then array_slice p (p + k) array
                          else resize k (drop p array))"
      using get_words_Inr(3) [OF g] i by (simp add: length_word_positions p_def)
    show ?thesis
    proof (cases "p + k \<le> length array")
      case True
      then have "words ! i = take k (drop p array)"
        using w by (simp add: array_slice_def)
      with True show ?thesis
        unfolding p_def [symmetric] by (auto simp: min_def)
    next
      case False
      then have "words ! i = drop p array @ replicate (k - (length array - p)) 0"
        using w by (simp add: resize_short)
      with False show ?thesis
        unfolding p_def [symmetric] by (auto simp: nth_append)
    qed
  qed
  have example: "get_words [2, - 1, 0, 3, - 4, 1, 0, 2] 3 4 =
     Inr [[2, - 1, 0], [0, 3, - 4], [- 4, 1, 0], [0, 2, 0 :: int8]]"
  proof -
    have len: "length [2, - 1, 0, 3, - 4, 1, 0, 2 :: int8] = 8"
      by simp
    show ?thesis
      unfolding get_words_def len word_positions_8_4 Let_def
      by (simp add: array_slice_def resize_def)
  qed
  have quantized: "max_contrast [[2, - 1, 0], [0, 3, - 4], [- 4, 1, 0], [0, 2, 0]] ! 0 = [1, - 1, 0]"
    by (simp add: max_contrast_def word_sless_alt)
  show ?thesis
    using general example quantized word_positions_8_4 by blast
qed

theorem get_words_word_witness:
  "[0, 2, 0 :: int8] = drop 6 [2, - 1, 0, 3, - 4, 1, 0, 2] @ replicate (3 - (8 - 6)) 0 \<and>
   get_words [2, - 1, 0, 3, - 4, 1, 0, 2] 3 4 =
     Inr [[2, - 1, 0], [0, 3, - 4], [- 4, 1, 0], [0, 2, 0]]"
  using get_words_word [of "[2, - 1, 0, 3, - 4, 1, 0, 2]" 3 4
      "[[2, - 1, 0], [0, 3, - 4], [- 4, 1, 0], [0, 2, 0]]" 3]
  by simp

subsection \<open>Quantisation\<close>

lemma quantize_elem:
  fixes x :: int8
  shows "(if (if 0 <s x then 1 else x) <s 0 then - 1 else (if 0 <s x then 1 else x)) =
         (if 0 < sint x then 1 else if sint x < 0 then - 1 else 0)"
proof -
  have "sint x = 0 \<Longrightarrow> x = 0"
    by (simp add: signed_eq_0_iff)
  then show ?thesis
    by (auto simp: word_sless_alt)
qed

lemma max_contrast_eq:
  "max_contrast array =
     map (map (\<lambda>x. if 0 < sint x then 1 else if sint x < 0 then - 1 else 0)) array"
  by (simp add: max_contrast_def quantize_elem o_def)

text \<open>
  Claim C4. \<^verbatim>\<open>max_contrast\<close> replaces every element by its sign: \<open>1\<close> for a
  positive element, \<open>-1\<close> for a negative one, \<open>0\<close> for zero. So every element of the
  result is \<open>-1\<close>, \<open>0\<close> or \<open>1\<close>, and quantising twice is quantising once.
\<close>

theorem max_contrast_sign:
  "max_contrast array =
     map (map (\<lambda>x. if 0 < sint x then 1 else if sint x < 0 then - 1 else 0)) array \<and>
   max_contrast (max_contrast array) = max_contrast array \<and>
   (\<forall>w \<in> set (max_contrast array). \<forall>x \<in> set w. x = - 1 \<or> x = 0 \<or> x = 1)"
proof -
  have idem: "max_contrast (max_contrast array) = max_contrast array"
    by (simp add: max_contrast_eq o_def)
  have range: "\<forall>w \<in> set (max_contrast array). \<forall>x \<in> set w. x = - 1 \<or> x = 0 \<or> x = 1"
    by (auto simp: max_contrast_eq)
  show ?thesis
    using max_contrast_eq [of array] idem range by blast
qed

theorem max_contrast_sign_witness:
  "max_contrast [[2, - 1, 0], [0, 3, - 4]] = [[1, - 1, 0], [0, 1, - 1]] \<and>
   max_contrast (max_contrast [[2, - 1, 0], [0, 3, - 4]]) = [[1, - 1, 0], [0, 1, - 1]]"
  using max_contrast_sign [of "[[2, - 1, 0], [0, 3, - 4]]"]
  by (simp add: max_contrast_def word_sless_alt)

subsection \<open>The constructor\<close>

text \<open>
  Claim C9, amended. Construction succeeds exactly when the store handle is a
  \<^verbatim>\<open>Collection\<close>, \<open>k\<close> and \<open>N\<close> have the type \<^verbatim>\<open>int\<close>, and
  \<^verbatim>\<open>distance_cutoff\<close> has the type \<^verbatim>\<open>float\<close> and is not below zero; so it
  succeeds for every float \<open>x \<ge> 0\<close>, zero included.
\<close>

theorem init_validation:
  "((\<exists>self. init collection k N cutoff = Inr self) \<longleftrightarrow>
      (\<exists>docs kv nv d. collection = PyCollection docs \<and> k = PyInt kv \<and> N = PyInt nv \<and>
         cutoff = PyFloat d \<and> \<not> float_lt d (Finite 0))) \<and>
   (0 \<le> x \<longrightarrow>
      (\<exists>self. init (PyCollection docs') (PyInt kv') (PyInt nv') (PyFloat (Finite x)) = Inr self))"
  by (auto simp: init_def split: pyobj.splits)

theorem init_validation_witness:
  "(\<exists>self. init (PyCollection []) (PyInt 16) (PyInt 63) (PyFloat (Finite 0)) = Inr self) \<and>
   \<not> (\<exists>self. init (PyCollection []) (PyInt 16) (PyInt 63) (PyFloat (Finite (- 1))) = Inr self) \<and>
   \<not> (\<exists>self. init (PyCollection []) (PyBool True) (PyInt 63) (PyFloat (Finite 0)) = Inr self)"
  using init_validation [of "PyCollection []" "PyInt 16" "PyInt 63" "PyFloat (Finite 0)" 0 "[]" 16 63]
    init_validation [of "PyCollection []" "PyInt 16" "PyInt 63" "PyFloat (Finite (- 1))" 0 "[]" 16 63]
    init_validation [of "PyCollection []" "PyBool True" "PyInt 63" "PyFloat (Finite 0)" 0 "[]" 16 63]
  by simp

text \<open>
  Claim C9 as stated fails: the integer \<open>0\<close> is a non-negative number, and the
  constructor rejects it because its type is not \<^verbatim>\<open>float\<close>.
\<close>

theorem init_integer_cutoff_rejected:
  "init (PyCollection []) (PyInt 16) (PyInt 63) (PyInt 0) =
     Inl (TypeError ''distance_cutoff should be a float'')"
  by (simp add: init_def)

subsection \<open>Records\<close>

lemma digit_char_inj:
  assumes "a < 10" "b < 10" "digit_char a = digit_char b"
  shows "a = b"
proof -
  have "of_char (digit_char a) = (of_char (digit_char b) :: nat)"
    using assms(3) by simp
  then have "(48 + a) mod 256 = (48 + b) mod 256"
    by (simp add: digit_char_def)
  with assms(1,2) show ?thesis by simp
qed

lemma str_nat_small: "n < 10 \<Longrightarrow> str_nat n = [digit_char n]"
  by (subst str_nat.simps) simp

lemma str_nat_large:
  "10 \<le> n \<Longrightarrow> str_nat n = str_nat (n div 10) @ [digit_char (n mod 10)]"
  by (subst str_nat.simps) simp

lemma str_nat_nonempty: "str_nat n \<noteq> []"
  by (cases "n < 10") (simp_all add: str_nat_small str_nat_large)

lemma str_nat_inj: "str_nat m = str_nat n \<Longrightarrow> m = n"
proof (induction m arbitrary: n rule: less_induct)
  case (less m)
  show ?case
  proof (cases "m < 10")
    case True
    show ?thesis
    proof (cases "n < 10")
      case True
      with \<open>m < 10\<close> less.prems show ?thesis
        by (simp add: str_nat_small digit_char_inj)
    next
      case False
      with \<open>m < 10\<close> less.prems show ?thesis
        using str_nat_nonempty [of "n div 10"] by (simp add: str_nat_small str_nat_large)
    qed
  next
    case False
    show ?thesis
    proof (cases "n < 10")
      case True
      with \<open>\<not> m < 10\<close> less.prems show ?thesis
        using str_nat_nonempty [of "m div 10"] by (simp add: str_nat_small str_nat_large)
    next
      case nlarge: False
      with False less.prems have
        eq: "str_nat (m div 10) = str_nat (n div 10)" and
        dg: "digit_char (m mod 10) = digit_char (n mod 10)"
        by (simp_all add: str_nat_large)
      from False have "m div 10 < m" by simp
      from less.IH [OF this eq] have "m div 10 = n div 10" .
      moreover from dg have "m mod 10 = n mod 10"
        by (rule digit_char_inj [rotated 2]) simp_all
      ultimately show ?thesis
        by (metis div_mult_mod_eq)
    qed
  qed
qed

lemma slot_name_inj: "slot_name i = slot_name j \<Longrightarrow> i = j"
  by (simp add: slot_name_def str_nat_inj)

lemma slot_name_not_fixed: "slot_name i \<noteq> ''path''" "slot_name i \<noteq> ''signature''"
  by (simp_all add: slot_name_def)

lemma str_find_slot_name: "str_find (slot_name i) ''simple'' = 0"
  by (simp add: str_find_def slot_name_def)

lemma str_find_fixed: "str_find ''path'' ''simple'' = - 1" "str_find ''signature'' ''simple'' = - 1"
  by (simp_all add: str_find_def)

lemma fold_update_keys:
  assumes "\<forall>i<n. slot_name i \<notin> set (map fst r)"
  shows "map fst (fold (\<lambda>i r. AList.update (slot_name i) (f i) r) [0..<n] r) =
           map fst r @ map slot_name [0..<n]"
  using assms
proof (induction n)
  case 0
  then show ?case by simp
next
  case (Suc n)
  then have "slot_name n \<notin> set (map fst r @ map slot_name [0..<n])"
    by (auto dest: slot_name_inj)
  with Suc show ?case
    by (simp add: update_keys)
qed

lemma fold_update_lookup:
  "i < n \<Longrightarrow>
     map_of (fold (\<lambda>i r. AList.update (slot_name i) (f i) r) [0..<n] r) (slot_name i) = Some (f i)"
proof (induction n)
  case 0
  then show ?case by simp
next
  case (Suc n)
  then show ?case
    by (cases "i = n") (auto simp: update_conv' dest: slot_name_inj)
qed

lemma fold_update_other:
  "\<forall>i<n. key \<noteq> slot_name i \<Longrightarrow>
     map_of (fold (\<lambda>i r. AList.update (slot_name i) (f i) r) [0..<n] r) key = map_of r key"
  by (induction n) (simp_all add: update_conv')

lemma make_record_keys:
  assumes "make_record gis self path = Inr r"
  shows "map fst r = ''path'' # ''signature'' # map slot_name [0..<nat (self_N self)]"
proof -
  define r1 :: document where
    "r1 = [(''path'', Str path), (''signature'', IntList (map sint (gis path)))]"
  from assms obtain words where
    rec: "r = fold (\<lambda>i r. AList.update (slot_name i)
                     (IntList (map sint (max_contrast words ! i))) r) [0..<nat (self_N self)] r1"
    by (auto simp: make_record_def Let_def r1_def split: if_splits sum.splits)
  have fresh: "\<forall>i<nat (self_N self). slot_name i \<notin> set (map fst r1)"
    using slot_name_not_fixed by (auto simp: r1_def)
  show ?thesis
    unfolding rec using fold_update_keys [OF fresh] by (simp add: r1_def)
qed

lemma make_record_discover:
  assumes "make_record gis self path = Inr r"
  shows "discover_index_names r = map slot_name [0..<nat (self_N self)]"
proof -
  have "filter (\<lambda>field. - 1 < str_find field ''simple'') (map slot_name ns) = map slot_name ns" for ns
    by (induction ns) (simp_all add: str_find_slot_name)
  then show ?thesis
    unfolding discover_index_names_def make_record_keys [OF assms]
    by (simp add: str_find_fixed)
qed

text \<open>
  Claim C10. A record made by \<^verbatim>\<open>make_record\<close> has exactly the fields
  \<^verbatim>\<open>path\<close>, \<^verbatim>\<open>signature\<close> and \<^verbatim>\<open>simple_word_0\<close> to
  \<^verbatim>\<open>simple_word_{N-1}\<close>, each once; the fields whose name contains
  \<^verbatim>\<open>simple\<close> are exactly the word slots; \<^verbatim>\<open>signature\<close> holds the signature
  as generated, and slot \<open>i\<close> holds the quantised word \<open>i\<close>, whose entries are \<open>-1\<close>,
  \<open>0\<close> or \<open>1\<close>.
\<close>

theorem make_record_fields:
  assumes "make_record gis self path = Inr record"
  shows "set (map fst record) = {''path'', ''signature''} \<union> slot_name ` {0..<nat (self_N self)} \<and>
         distinct (map fst record) \<and>
         set (discover_index_names record) = slot_name ` {0..<nat (self_N self)} \<and>
         map_of record ''path'' = Some (Str path) \<and>
         map_of record ''signature'' = Some (IntList (map sint (gis path))) \<and>
         (\<exists>words. get_words (gis path) (nat (self_k self)) (nat (self_N self)) = Inr words \<and>
            (\<forall>i<nat (self_N self).
               map_of record (slot_name i) = Some (IntList (map sint (max_contrast words ! i))) \<and>
               set (map sint (max_contrast words ! i)) \<subseteq> {- 1, 0, 1}))"
proof -
  define n where "n = nat (self_N self)"
  define r1 :: document where
    "r1 = [(''path'', Str path), (''signature'', IntList (map sint (gis path)))]"
  from assms obtain words where
    w: "get_words (gis path) (nat (self_k self)) n = Inr words" and
    rec: "record = fold (\<lambda>i r. AList.update (slot_name i)
                     (IntList (map sint (max_contrast words ! i))) r) [0..<n] r1"
    by (auto simp: make_record_def Let_def n_def r1_def split: if_splits sum.splits)
  have fresh: "\<forall>i<n. slot_name i \<notin> set (map fst r1)"
    using slot_name_not_fixed by (auto simp: r1_def)
  have keys: "map fst record = ''path'' # ''signature'' # map slot_name [0..<n]"
    unfolding rec using fold_update_keys [OF fresh] by (simp add: r1_def)
  have k1: "set (map fst record) = {''path'', ''signature''} \<union> slot_name ` {0..<n}"
    unfolding keys by auto
  have k2: "distinct (map fst record)"
    unfolding keys using slot_name_not_fixed slot_name_not_fixed [symmetric]
    by (auto simp: distinct_map inj_on_def dest: slot_name_inj)
  have k3: "set (discover_index_names record) = slot_name ` {0..<n}"
    unfolding discover_index_names_def keys
    by (auto simp: str_find_fixed str_find_slot_name)
  have other: "map_of record key = map_of r1 key" if "key = ''path'' \<or> key = ''signature''" for key
    unfolding rec using that slot_name_not_fixed
    by (intro fold_update_other) metis
  have k4: "map_of record ''path'' = Some (Str path)"
    using other [of "''path''"] by (simp add: r1_def)
  have k5: "map_of record ''signature'' = Some (IntList (map sint (gis path)))"
    using other [of "''signature''"] by (simp add: r1_def)
  have lw: "length words = n"
    using get_words_Inr(3) [OF w] by (simp add: length_word_positions)
  have k6: "map_of record (slot_name i) = Some (IntList (map sint (max_contrast words ! i))) \<and>
            set (map sint (max_contrast words ! i)) \<subseteq> {- 1, 0, 1}" if "i < n" for i
  proof
    show "map_of record (slot_name i) = Some (IntList (map sint (max_contrast words ! i)))"
      unfolding rec using that by (rule fold_update_lookup)
    show "set (map sint (max_contrast words ! i)) \<subseteq> {- 1, 0, 1}"
      using that lw by (auto simp: max_contrast_eq)
  qed
  show ?thesis
    using k1 k2 k3 k4 k5 k6 w unfolding n_def by blast
qed

theorem make_record_fields_witness:
  "make_record (\<lambda>p. [2, - 1, 0, 3, - 4, 1, 0, 2])
     \<lparr>self_collection = [], self_k = 3, self_N = 4, self_distance_cutoff = Finite (1 / 2),
      self_index_names = None\<rparr> ''img'' =
   Inr [(''path'', Str ''img''), (''signature'', IntList [2, - 1, 0, 3, - 4, 1, 0, 2]),
        (''simple_word_0'', IntList [1, - 1, 0]), (''simple_word_1'', IntList [0, 1, - 1]),
        (''simple_word_2'', IntList [- 1, 1, 0]), (''simple_word_3'', IntList [0, 1, 0])] \<and>
   set (discover_index_names
     [(''path'', Str ''img''), (''signature'', IntList [2, - 1, 0, 3, - 4, 1, 0, 2]),
      (''simple_word_0'', IntList [1, - 1, 0]), (''simple_word_1'', IntList [0, 1, - 1]),
      (''simple_word_2'', IntList [- 1, 1, 0]), (''simple_word_3'', IntList [0, 1, 0])]) =
     slot_name ` {0..<4}"
proof -
  have example: "make_record (\<lambda>p. [2, - 1, 0, 3, - 4, 1, 0, 2])
     \<lparr>self_collection = [], self_k = 3, self_N = 4, self_distance_cutoff = Finite (1 / 2),
      self_index_names = None\<rparr> ''img'' =
   Inr [(''path'', Str ''img''), (''signature'', IntList [2, - 1, 0, 3, - 4, 1, 0, 2]),
        (''simple_word_0'', IntList [1, - 1, 0]), (''simple_word_1'', IntList [0, 1, - 1]),
        (''simple_word_2'', IntList [- 1, 1, 0]), (''simple_word_3'', IntList [0, 1, 0])]"
    by code_simp
  from make_record_fields [OF example] example show ?thesis
    by simp
qed


subsection \<open>Candidates\<close>

text \<open>
  Claim C8 fails on the code. Over an empty collection the constructor returns an object
  without the attribute \<^verbatim>\<open>index_names\<close>, and \<^verbatim>\<open>find_word_matches\<close> then
  raises \<^verbatim>\<open>AttributeError\<close> for every query record.
\<close>

theorem empty_collection_query_raises:
  "\<exists>self. init (PyCollection []) (PyInt 16) (PyInt 63) (PyFloat (Finite (1 / 2))) = Inr self \<and>
     self_index_names self = None \<and>
     (\<forall>record. find_word_matches self record = Inl (AttributeError ''index_names''))"
  by (simp add: init_def find_word_matches_def)

lemma or_clauses_Inr:
  "or_clauses record names = Inr clauses \<Longrightarrow>
     set clauses = {(name, v). name \<in> set names \<and> map_of record name = Some v}"
proof (induction names arbitrary: clauses)
  case Nil
  then show ?case by simp
next
  case (Cons name names)
  then show ?case
    by (auto split: option.splits sum.splits)
qed

text \<open>
  Claim C5. Every document that \<^verbatim>\<open>find_word_matches\<close> returns is a stored document
  that agrees with the query record on an indexed field: for some name in
  \<^verbatim>\<open>index_names\<close> the stored value equals the value of the query record. When the
  index names were discovered from a record made by \<^verbatim>\<open>make_record\<close>, that name is
  \<^verbatim>\<open>simple_word_i\<close> for a slot index \<open>i\<close>.
\<close>

theorem find_word_matches_shares_word:
  assumes "find_word_matches self record = Inr docs" and "doc \<in> set docs"
  shows "\<exists>names name v. self_index_names self = Some names \<and> name \<in> set names \<and>
           map_of record name = Some v \<and> map_of doc name = Some v \<and>
           doc \<in> set (self_collection self) \<and>
           (\<forall>gis other path stored.
              make_record gis other path = Inr stored \<and> names = discover_index_names stored \<longrightarrow>
              (\<exists>i<nat (self_N other). name = slot_name i))"
proof -
  from assms(1) obtain names clauses where
    n: "self_index_names self = Some names" and
    c: "or_clauses record names = Inr clauses" and
    d: "docs = find_or (self_collection self) clauses"
    by (auto simp: find_word_matches_def split: option.splits sum.splits)
  from assms(2) d obtain clause where
    m: "doc \<in> set (self_collection self)" "clause \<in> set clauses" "matches_clause doc clause"
    by (auto simp: find_or_def list_ex_iff)
  obtain name v where cl: "clause = (name, v)" by (cases clause)
  from or_clauses_Inr [OF c] m(2) have nm: "name \<in> set names" "map_of record name = Some v"
    by (auto simp: cl)
  from m(3) have dv: "map_of doc name = Some v"
    by (simp add: matches_clause_def cl)
  have slot: "\<exists>i<nat (self_N other). name = slot_name i"
    if "make_record gis other path = Inr stored" "names = discover_index_names stored"
    for gis other path stored
    using nm(1) that(2) make_record_discover [OF that(1)] by auto
  show ?thesis
    using n nm dv m(1) slot by blast
qed

theorem find_word_matches_shares_word_witness:
  "find_word_matches
     \<lparr>self_collection =
        [[(''path'', Str ''a''), (''simple_word_0'', IntList [1, 0])],
         [(''path'', Str ''b''), (''simple_word_0'', IntList [0, - 1])]],
      self_k = 2, self_N = 1, self_distance_cutoff = Finite (1 / 2),
      self_index_names = Some [''simple_word_0'']\<rparr>
     [(''simple_word_0'', IntList [1, 0])] =
     Inr [[(''path'', Str ''a''), (''simple_word_0'', IntList [1, 0])]] \<and>
   (\<exists>names name v.
      Some [''simple_word_0''] = Some names \<and> name \<in> set names \<and>
      map_of [(''simple_word_0'', IntList [1, 0])] name = Some v \<and>
      map_of [(''path'', Str ''a''), (''simple_word_0'', IntList [1, 0])] name = Some v)"
proof -
  have run: "find_word_matches
     \<lparr>self_collection =
        [[(''path'', Str ''a''), (''simple_word_0'', IntList [1, 0])],
         [(''path'', Str ''b''), (''simple_word_0'', IntList [0, - 1])]],
      self_k = 2, self_N = 1, self_distance_cutoff = Finite (1 / 2),
      self_index_names = Some [''simple_word_0'']\<rparr>
     [(''simple_word_0'', IntList [1, 0])] =
     Inr [[(''path'', Str ''a''), (''simple_word_0'', IntList [1, 0])]]"
    by (simp add: find_word_matches_def find_or_def matches_clause_def)
  from find_word_matches_shares_word [OF run, of "[(''path'', Str ''a''), (''simple_word_0'', IntList [1, 0])]"]
  show ?thesis
    using run by simp
qed

subsection \<open>Ranking\<close>

lemma collect_Inr:
  "collect rs = Inr xs \<Longrightarrow> length xs = length rs \<and> (\<forall>i<length rs. rs ! i = Inr (xs ! i))"
proof (induction rs arbitrary: xs)
  case Nil
  then show ?case by simp
next
  case (Cons r rs)
  then show ?case
    by (auto split: sum.splits simp: nth_Cons')
qed

lemma float_lt_irrefl: "\<not> float_lt x x"
  by (cases x) simp_all

text \<open>
  Claim C7. When \<^verbatim>\<open>find_matches\<close> returns, candidate \<open>i\<close> with distance
  \<open>d ! i\<close> is in the result exactly when \<open>d ! i\<close> is strictly below the cutoff; a
  candidate whose distance equals the cutoff is left out, and the result holds nothing
  but such candidates.
\<close>

theorem find_matches_cutoff:
  assumes "find_matches gis self path = Inr result"
  shows "\<exists>record t sigs vec d paths.
           make_record gis self path = Inr record \<and>
           find_word_matches self record = Inr t \<and>
           collect (map signature_of t) = Inr sigs \<and>
           signature_of record = Inr vec \<and>
           normalized_distance sigs vec = Inr d \<and>
           collect (map path_of t) = Inr paths \<and>
           length d = length t \<and> length paths = length t \<and>
           (\<forall>i<length t.
              ((d ! i, paths ! i) \<in> set result \<longleftrightarrow> float_lt (d ! i) (self_distance_cutoff self)) \<and>
              (d ! i = self_distance_cutoff self \<longrightarrow> (d ! i, paths ! i) \<notin> set result)) \<and>
           (\<forall>x p. (x, p) \<in> set result \<longrightarrow>
              float_lt x (self_distance_cutoff self) \<and> (\<exists>i<length t. x = d ! i \<and> p = paths ! i))"
proof -
  from assms obtain query t sigs vec d paths where
    r: "make_record gis self path = Inr query" and
    t: "find_word_matches self query = Inr t" and
    s: "collect (map signature_of t) = Inr sigs" and
    v: "signature_of query = Inr vec" and
    d: "normalized_distance sigs vec = Inr d" and
    p: "collect (map path_of t) = Inr paths" and
    res: "result = filter (\<lambda>(x, p). float_lt x (self_distance_cutoff self)) (zip d paths)"
    by (auto simp: find_matches_def split: sum.splits if_splits)
  have ls: "length sigs = length t"
    using collect_Inr [OF s] by simp
  have ld: "length d = length t"
    using collect_Inr [OF d [unfolded normalized_distance_def]] ls by simp
  have lp: "length paths = length t"
    using collect_Inr [OF p] by simp
  have mem: "(d ! i, paths ! i) \<in> set (zip d paths)" if "i < length t" for i
    using that ld lp by (metis in_set_zip fst_conv snd_conv)
  have a: "((d ! i, paths ! i) \<in> set result \<longleftrightarrow> float_lt (d ! i) (self_distance_cutoff self)) \<and>
           (d ! i = self_distance_cutoff self \<longrightarrow> (d ! i, paths ! i) \<notin> set result)"
    if "i < length t" for i
    using mem [OF that] by (auto simp: res float_lt_irrefl)
  have b: "float_lt x (self_distance_cutoff self) \<and> (\<exists>i<length t. x = d ! i \<and> p = paths ! i)"
    if "(x, p) \<in> set result" for x p
  proof -
    from that have "(x, p) \<in> set (zip d paths)" and lt: "float_lt x (self_distance_cutoff self)"
      by (auto simp: res)
    then obtain i where "i < length d" "d ! i = x" "paths ! i = p"
      by (auto simp: in_set_zip)
    with lt ld show ?thesis by auto
  qed
  show ?thesis
    using r t s v d p ld lp a b by blast
qed

theorem find_matches_cutoff_witness:
  "find_matches (\<lambda>p. [3, 4])
     \<lparr>self_collection =
        [[(''path'', Str ''a''), (''signature'', IntList [3, 4]), (''simple_word_0'', IntList [1])],
         [(''path'', Str ''b''), (''signature'', IntList [- 3, - 4]), (''simple_word_0'', IntList [1])]],
      self_k = 1, self_N = 1, self_distance_cutoff = Finite 1,
      self_index_names = Some [''simple_word_0'']\<rparr> ''q'' =
     Inr [(Finite 0, Str ''a'')] \<and>
   (\<exists>t d paths. length d = length t \<and> length paths = length t \<and>
      (\<forall>i<length (t :: document list).
         ((d ! i, paths ! i) \<in> set [(Finite 0, Str ''a'')]) = float_lt (d ! i) (Finite 1)))"
proof -
  have run: "find_matches (\<lambda>p. [3, 4])
     \<lparr>self_collection =
        [[(''path'', Str ''a''), (''signature'', IntList [3, 4]), (''simple_word_0'', IntList [1])],
         [(''path'', Str ''b''), (''signature'', IntList [- 3, - 4]), (''simple_word_0'', IntList [1])]],
      self_k = 1, self_N = 1, self_distance_cutoff = Finite 1,
      self_index_names = Some [''simple_word_0'']\<rparr> ''q'' =
     Inr [(Finite 0, Str ''a'')]"
    by code_simp
  from find_matches_cutoff [OF run] show ?thesis
    using run by simp blast
qed

subsection \<open>The normalised distance\<close>





lemma sint8_range: "- 128 \<le> sint (x :: int8)" "sint (x :: int8) \<le> 127"
  using sint_ge [of x] sint_lt [of x] by simp_all

lemma sint8_diff: "sint (x - y :: int8) = (sint x - sint y + 128) mod 256 - 128"
  by (simp add: sint_word_diff signed_take_bit_eq_take_bit_shift take_bit_eq_mod)

lemma sint8_diff_cases:
  "sint (x - y :: int8) =
     (if sint x - sint y < - 128 then sint x - sint y + 256
      else if 127 < sint x - sint y then sint x - sint y - 256
      else sint x - sint y)"
proof -
  define d where "d = sint x - sint y"
  have r: "- 255 \<le> d" "d \<le> 255"
    using sint8_range [of x] sint8_range [of y] by (simp_all add: d_def)
  define a where "a = d + 128"
  have ra: "- 127 \<le> a" "a \<le> 383" using r by (simp_all add: a_def)
  have m: "a mod 256 = (if a < 0 then a + 256 else if 255 < a then a - 256 else a)"
  proof (cases "a < 0")
    case True
    have "(a + 256) mod 256 = a mod 256" by (simp only: mod_add_self2)
    moreover have "(a + 256) mod 256 = a + 256"
      using True ra by (intro mod_pos_pos_trivial) linarith+
    ultimately show ?thesis using True by simp
  next
    case False
    show ?thesis
    proof (cases "255 < a")
      case True
      define c where "c = a - 256"
      have ac: "a = c + 256" by (simp add: c_def)
      have "(c + 256) mod 256 = c mod 256" by (simp only: mod_add_self2)
      moreover have "c mod 256 = c"
        using True ra by (intro mod_pos_pos_trivial) (simp_all add: c_def)
      ultimately have "(c + 256) mod 256 = c" by (simp only:)
      then have "a mod 256 = a - 256" unfolding c_def by simp
      with True False show ?thesis by simp
    next
      case a2: False
      have "a mod 256 = a"
        using False a2 by (intro mod_pos_pos_trivial) linarith+
      with False a2 show ?thesis by simp
    qed
  qed
  have "sint (x - y) = a mod 256 - 128"
    by (simp add: sint8_diff a_def d_def)
  also have "\<dots> = (if d < - 128 then d + 256 else if 127 < d then d - 256 else d)"
    unfolding m by (simp add: a_def)
  finally show ?thesis by (simp only: d_def)
qed

lemma sint8_diff_abs: "\<bar>sint (x - y :: int8)\<bar> \<le> \<bar>sint x\<bar> + \<bar>sint y\<bar>"
  unfolding sint8_diff_cases using sint8_range [of x] sint8_range [of y]
  by (simp split: if_splits) linarith








lemma wrapped_difference_small:
  "length v = length b \<Longrightarrow>
     \<forall>(d, x, y) \<in> set (zip (map sint (map2 (-) v b)) (zip (map sint v) (map sint (b :: int8 list)))).
        \<bar>d\<bar> \<le> \<bar>x\<bar> + \<bar>y\<bar>"
  by (induction v b rule: list_induct2) (simp_all add: sint8_diff_abs)















end
